theory Spec2Isabelle
  imports Complex_Main
begin

section \<open>The typing session engine of zentype (client/internal/game/game.go)\<close>

text \<open>
  The embedding follows \<^verbatim>\<open>game.go\<close> function by function.

  \<^item> Go's \<^verbatim>\<open>int\<close> fields are \<^typ>\<open>int\<close>: the counters move by one per keystroke, so the
    64-bit wrap-around is out of reach and is not modelled.
  \<^item> A Go string is a \<^typ>\<open>string\<close> (a list of bytes). The word list is lowercase English
    and the presentation layer forwards only the runes 32..126, so the text is ASCII: a
    rune is one \<^typ>\<open>char\<close>, \<^verbatim>\<open>[]rune(s)\<close> is \<open>s\<close> itself and \<^verbatim>\<open>len\<close> counts the same
    on both.
  \<^item> \<^verbatim>\<open>time.Time\<close> is a reading of the monotonic clock in nanoseconds, \<^verbatim>\<open>time.Duration\<close>
    a number of nanoseconds. Every read of the clock (\<^verbatim>\<open>time.Now\<close>, \<^verbatim>\<open>time.Since\<close>) is
    an argument of the operation that makes it.
  \<^item> \<^verbatim>\<open>float64\<close> values are exact rationals (\<^typ>\<open>rat\<close>): rounding is not modelled.
  \<^item> \<^verbatim>\<open>GenerateWords\<close>, the random word source, is defined in another file of the
    package; the operations that call it take it as the argument \<open>GenerateWords\<close>, the
    function from the requested count to the words that call returns.
  \<^item> A run-time panic (index out of range, \<^verbatim>\<open>make\<close> with a negative capacity) is the
    \<open>Inl\<close> branch of the result.
\<close>

datatype error = IndexOutOfRange | MakeSliceCapOutOfRange

record TypingStats =
  WPM :: rat
  Accuracy :: rat
  CharactersTyped :: int
  CorrectChars :: int
  TotalChars :: int
  TimeElapsed :: int
  IsComplete :: bool
  UncorrectedErrors :: int

record TypingGame =
  AllWords :: "string list"
  DisplayLines :: "string list"
  UserInput :: string
  CurrentPos :: int
  GlobalPos :: int
  StartTime :: int
  Duration :: int
  IsStarted :: bool
  IsFinished :: bool
  Errors :: "int \<rightharpoonup> bool"
  TotalErrorsMade :: int
  LinesPerView :: int
  CharsPerLine :: int
  WordsTyped :: int

subsection \<open>Library functions of Go used by the engine\<close>

text \<open>\<^verbatim>\<open>time.Second\<close>, \<^verbatim>\<open>Duration.Seconds\<close> and \<^verbatim>\<open>Duration.Minutes\<close>.\<close>

definition Second :: int where
  "Second = 1000000000"

definition Seconds :: "int \<Rightarrow> rat" where
  "Seconds d = of_int d / 1000000000"

definition Minutes :: "int \<Rightarrow> rat" where
  "Minutes d = of_int d / 60000000000"

text \<open>\<^verbatim>\<open>strings.Fields\<close> on ASCII text: the maximal runs of non-space bytes, found by one
  scan that remembers the field being read.\<close>

definition asciiSpace :: "char \<Rightarrow> bool" where
  "asciiSpace c = (c = CHR 0x09 \<or> c = CHR 0x0A \<or> c = CHR 0x0B \<or> c = CHR 0x0C
      \<or> c = CHR 0x0D \<or> c = CHR '' '')"

fun fieldsFrom :: "string \<Rightarrow> string \<Rightarrow> string list" where
  "fieldsFrom cur [] = (if cur = [] then [] else [cur])"
| "fieldsFrom cur (c # cs) =
     (if asciiSpace c then (if cur = [] then fieldsFrom [] cs else cur # fieldsFrom [] cs)
      else fieldsFrom (cur @ [c]) cs)"

definition Fields :: "string \<Rightarrow> string list" where
  "Fields s = fieldsFrom [] s"

text \<open>\<^verbatim>\<open>strings.Join\<close>.\<close>

fun Join :: "string list \<Rightarrow> string \<Rightarrow> string" where
  "Join [] sep = []"
| "Join [x] sep = x"
| "Join (x # y # ys) sep = x @ sep @ Join (y # ys) sep"

subsection \<open>generateDisplayLines\<close>

text \<open>The inner loop: fill the current line with words while they fit. It returns the
  line and the index of the first word not placed.\<close>

function fillLine :: "string list \<Rightarrow> int \<Rightarrow> string \<Rightarrow> int \<Rightarrow> error + (string \<times> int)" where
  "fillLine allWords charsPerLine currentLine wordIndex =
     (if wordIndex < int (length allWords) then
        (if wordIndex < 0 then Inl IndexOutOfRange
         else
           let word = allWords ! nat wordIndex;
               spaceNeeded = (if length currentLine > 0 then 1 else 0)
           in if int (length currentLine) + spaceNeeded + int (length word) \<le> charsPerLine
              then fillLine allWords charsPerLine
                     ((if length currentLine > 0 then currentLine @ '' '' else currentLine) @ word)
                     (wordIndex + 1)
              else Inr (currentLine, wordIndex))
      else Inr (currentLine, wordIndex))"
  by pat_completeness auto
termination
  by (relation "measure (\<lambda>(allWords, charsPerLine, currentLine, wordIndex).
        nat (int (length allWords) - wordIndex))") auto

text \<open>The outer loop: one line per round, while lines are wanted and words are left.\<close>

function genLines ::
  "string list \<Rightarrow> int \<Rightarrow> int \<Rightarrow> int \<Rightarrow> string list \<Rightarrow> int \<Rightarrow> error + string list" where
  "genLines allWords charsPerLine linesPerView lineNum lines wordIndex =
     (if lineNum < linesPerView \<and> wordIndex < int (length allWords) then
        (case fillLine allWords charsPerLine [] wordIndex of
           Inl e \<Rightarrow> Inl e
         | Inr (currentLine, wordIndex') \<Rightarrow>
             genLines allWords charsPerLine linesPerView (lineNum + 1)
               (if length currentLine > 0 then lines @ [currentLine] else lines @ [[]])
               wordIndex')
      else Inr lines)"
  by pat_completeness auto
termination
  by (relation "measure (\<lambda>(allWords, charsPerLine, linesPerView, lineNum, lines, wordIndex).
        nat (linesPerView - lineNum))") auto

text \<open>The padding loop: empty lines until there are \<open>linesPerView\<close> of them.\<close>

function padLines :: "string list \<Rightarrow> int \<Rightarrow> string list" where
  "padLines lines linesPerView =
     (if int (length lines) < linesPerView then padLines (lines @ [[]]) linesPerView
      else lines)"
  by pat_completeness auto
termination
  by (relation "measure (\<lambda>(lines, linesPerView). nat (linesPerView - int (length lines)))") auto

definition generateDisplayLines :: "TypingGame \<Rightarrow> error + TypingGame" where
  "generateDisplayLines g =
     (if LinesPerView g < 0 then Inl MakeSliceCapOutOfRange
      else
        (case genLines (AllWords g) (CharsPerLine g) (LinesPerView g) 0 [] (WordsTyped g) of
           Inl e \<Rightarrow> Inl e
         | Inr lines \<Rightarrow> Inr (g\<lparr>DisplayLines := padLines lines (LinesPerView g)\<rparr>)))"

subsection \<open>Construction, clock, keystrokes\<close>

definition NewTypingGame :: "(nat \<Rightarrow> string list) \<Rightarrow> int \<Rightarrow> error + TypingGame" where
  "NewTypingGame GenerateWords duration =
     (let words = GenerateWords 200
      in generateDisplayLines
           \<lparr>AllWords = words, DisplayLines = [], UserInput = [], CurrentPos = 0,
            GlobalPos = 0, StartTime = 0, Duration = duration, IsStarted = False,
            IsFinished = False, Errors = Map.empty, TotalErrorsMade = 0,
            LinesPerView = 3, CharsPerLine = 50, WordsTyped = 0\<rparr>)"

definition Start :: "TypingGame \<Rightarrow> int \<Rightarrow> TypingGame" where
  "Start g now = (if \<not> IsStarted g then g\<lparr>StartTime := now, IsStarted := True\<rparr> else g)"

definition IsTimeUp :: "TypingGame \<Rightarrow> int \<Rightarrow> bool" where
  "IsTimeUp g now =
     (if \<not> IsStarted g then False
      else Seconds (now - StartTime g) \<ge> of_int (Duration g))"

definition shiftLines :: "TypingGame \<Rightarrow> (nat \<Rightarrow> string list) \<Rightarrow> error + TypingGame" where
  "shiftLines g GenerateWords =
     (case DisplayLines g of
        [] \<Rightarrow> Inl IndexOutOfRange
      | line0 # _ \<Rightarrow>
          (case generateDisplayLines
                  (g\<lparr>WordsTyped := WordsTyped g + int (length (Fields line0)),
                     CurrentPos := 0\<rparr>) of
             Inl e \<Rightarrow> Inl e
           | Inr g' \<Rightarrow>
               if WordsTyped g' > int (length (AllWords g')) - 50
               then Inr (g'\<lparr>AllWords := AllWords g' @ GenerateWords 100\<rparr>)
               else Inr g'))"

definition AddCharacter ::
  "TypingGame \<Rightarrow> char \<Rightarrow> int \<Rightarrow> int \<Rightarrow> (nat \<Rightarrow> string list) \<Rightarrow> error + TypingGame" where
  "AddCharacter g0 c now now' GenerateWords =
     (let g = (if \<not> IsStarted g0 then Start g0 now else g0)
      in if IsFinished g \<or> IsTimeUp g now' then Inr (g\<lparr>IsFinished := True\<rparr>)
         else
           (case DisplayLines g of
              [] \<Rightarrow> Inl IndexOutOfRange
            | lineText # _ \<Rightarrow>
                if CurrentPos g = int (length lineText) then
                  (if c = CHR '' '' then
                     shiftLines
                       (g\<lparr>UserInput := UserInput g @ [c],
                          CurrentPos := CurrentPos g + 1,
                          GlobalPos := GlobalPos g + 1\<rparr>) GenerateWords
                   else Inr g)
                else if CurrentPos g < int (length lineText) \<and> CurrentPos g \<ge> 0 then
                  (let g1 = g\<lparr>UserInput := UserInput g @ [c]\<rparr>;
                       g2 = (if lineText ! nat (CurrentPos g) \<noteq> c
                             then g1\<lparr>Errors := (Errors g1)(GlobalPos g1 \<mapsto> True),
                                     TotalErrorsMade := TotalErrorsMade g1 + 1\<rparr>
                             else g1)
                   in Inr (g2\<lparr>CurrentPos := CurrentPos g2 + 1,
                               GlobalPos := GlobalPos g2 + 1\<rparr>))
                else Inr g))"

definition HandleEnterKey ::
  "TypingGame \<Rightarrow> int \<Rightarrow> (nat \<Rightarrow> string list) \<Rightarrow> error + (bool \<times> TypingGame)" where
  "HandleEnterKey g now GenerateWords =
     (if IsFinished g \<or> IsTimeUp g now then Inr (False, g)
      else
        (case DisplayLines g of
           [] \<Rightarrow> Inl IndexOutOfRange
         | lineText # _ \<Rightarrow>
             if CurrentPos g = int (length lineText) then
               (case shiftLines
                       (g\<lparr>UserInput := UserInput g @ '' '',
                          CurrentPos := CurrentPos g + 1,
                          GlobalPos := GlobalPos g + 1\<rparr>) GenerateWords of
                  Inl e \<Rightarrow> Inl e
                | Inr g' \<Rightarrow> Inr (True, g'))
             else Inr (False, g)))"

definition RemoveCharacter :: "TypingGame \<Rightarrow> TypingGame" where
  "RemoveCharacter g =
     (if length (UserInput g) > 0 \<and> CurrentPos g > 0 then
        (let g1 = g\<lparr>UserInput := take (length (UserInput g) - 1) (UserInput g),
                     CurrentPos := CurrentPos g - 1,
                     GlobalPos := GlobalPos g - 1\<rparr>
         in g1\<lparr>Errors := (Errors g1)(GlobalPos g1 := None)\<rparr>)
      else g)"

subsection \<open>Statistics\<close>

definition GetDisplayText :: "TypingGame \<Rightarrow> string" where
  "GetDisplayText g = Join (DisplayLines g) '' ''"

text \<open>\<^verbatim>\<open>GetStats\<close> has a pointer receiver, so the model returns the session after the call
  next to the statistics. \<open>now\<close> is the clock read by \<^verbatim>\<open>time.Since\<close> in the body, \<open>now'\<close> the
  one read by the call of \<^verbatim>\<open>IsTimeUp\<close> that follows it.\<close>

definition zeroStats :: TypingStats where
  "zeroStats = \<lparr>WPM = 0, Accuracy = 0, CharactersTyped = 0, CorrectChars = 0,
     TotalChars = 0, TimeElapsed = 0, IsComplete = False, UncorrectedErrors = 0\<rparr>"

definition GetStats :: "TypingGame \<Rightarrow> int \<Rightarrow> int \<Rightarrow> TypingStats \<times> TypingGame" where
  "GetStats g now now' =
     (if \<not> IsStarted g then (zeroStats, g)
      else
        let elapsed = now - StartTime g;
            timeForCalculation = (if IsTimeUp g now' then Duration g * Second else elapsed);
            minutes = Minutes timeForCalculation;
            wpm = (if minutes > 0 then of_int (GlobalPos g) / 5 / minutes else 0);
            correctChars = GlobalPos g - TotalErrorsMade g;
            accuracy = (if GlobalPos g > 0
                        then of_int correctChars / of_int (GlobalPos g) * 100 else 0);
            wpm' = (if wpm < 0 then 0 else wpm);
            accuracy' = (if accuracy < 0 then 0 else accuracy)
        in (\<lparr>WPM = wpm', Accuracy = accuracy', CharactersTyped = GlobalPos g,
             CorrectChars = correctChars,
             TotalChars = int (length (GetDisplayText g)),
             TimeElapsed = timeForCalculation, IsComplete = IsFinished g,
             UncorrectedErrors = int (card (dom (Errors g)))\<rparr>, g))"

subsection \<open>Sessions as sequences of events\<close>

datatype event =
    KeyChar char int int "nat \<Rightarrow> string list"
  | KeyEnter int "nat \<Rightarrow> string list"
  | KeyBackspace

fun step :: "TypingGame \<Rightarrow> event \<Rightarrow> error + TypingGame" where
  "step g (KeyChar c now now' GenerateWords) = AddCharacter g c now now' GenerateWords"
| "step g (KeyEnter now GenerateWords) =
     (case HandleEnterKey g now GenerateWords of Inl e \<Rightarrow> Inl e | Inr (ok, g') \<Rightarrow> Inr g')"
| "step g KeyBackspace = Inr (RemoveCharacter g)"

fun run :: "TypingGame \<Rightarrow> event list \<Rightarrow> error + TypingGame" where
  "run g [] = Inr g"
| "run g (e # es) = (case step g e of Inl err \<Rightarrow> Inl err | Inr g' \<Rightarrow> run g' es)"

definition reachable :: "TypingGame \<Rightarrow> bool" where
  "reachable g =
     (\<exists>GenerateWords duration g0 es.
        NewTypingGame GenerateWords duration = Inr g0 \<and> run g0 es = Inr g)"

subsection \<open>The invariant of a session\<close>

text \<open>What every operation keeps: the two layout constants, a window of three lines, counters
  that are not negative, the cursor not ahead of the global position, no error recorded at or
  after the global position, and a first line that is empty unless the word at
  \<open>WordsTyped\<close> exists and fits the line.\<close>

definition session_inv :: "TypingGame \<Rightarrow> bool" where
  "session_inv g =
     (LinesPerView g = 3 \<and> CharsPerLine g = 50 \<and> length (DisplayLines g) = 3
      \<and> 0 \<le> WordsTyped g \<and> 0 \<le> CurrentPos g \<and> CurrentPos g \<le> GlobalPos g
      \<and> (\<forall>k. GlobalPos g \<le> k \<longrightarrow> Errors g k = None)
      \<and> (hd (DisplayLines g) \<noteq> [] \<longrightarrow>
            WordsTyped g < int (length (AllWords g))
            \<and> int (length (AllWords g ! nat (WordsTyped g))) \<le> CharsPerLine g))"

subsection \<open>Example sessions\<close>

text \<open>A word source that answers every request with the word \<open>type\<close>, the session it
  gives for a test of ten seconds, and that session after the key \<open>t\<close> at clock 0.\<close>

definition typeWords :: "nat \<Rightarrow> string list" where
  "typeWords n = replicate n ''type''"

definition tenWords :: string where
  "tenWords = ''type type type type type type type type type type''"

definition freshGame :: TypingGame where
  "freshGame =
     \<lparr>AllWords = replicate 200 ''type'', DisplayLines = [tenWords, tenWords, tenWords],
      UserInput = [], CurrentPos = 0, GlobalPos = 0, StartTime = 0, Duration = 10,
      IsStarted = False, IsFinished = False, Errors = Map.empty, TotalErrorsMade = 0,
      LinesPerView = 3, CharsPerLine = 50, WordsTyped = 0\<rparr>"

definition typedT :: TypingGame where
  "typedT = freshGame\<lparr>UserInput := ''t'', CurrentPos := 1, GlobalPos := 1, IsStarted := True\<rparr>"

text \<open>A word source whose words are all 51 letters long, one more than a line holds, and
  the session it gives: no word fits, so the three lines are empty.\<close>

definition longWords :: "nat \<Rightarrow> string list" where
  "longWords n = replicate n (replicate 51 CHR ''a'')"

definition stuckGame :: TypingGame where
  "stuckGame =
     \<lparr>AllWords = replicate 200 (replicate 51 CHR ''a''), DisplayLines = [[], [], []],
      UserInput = [], CurrentPos = 0, GlobalPos = 0, StartTime = 0, Duration = 60,
      IsStarted = False, IsFinished = False, Errors = Map.empty, TotalErrorsMade = 0,
      LinesPerView = 3, CharsPerLine = 50, WordsTyped = 0\<rparr>"

text \<open>A word source whose every word is the alphabet: one word fills a line, the next one
  no longer fits. The session it gives for a test of sixty seconds, the 26 keystrokes that type
  the first line, and the session after them, the cursor at the end of the line.\<close>

definition alphabet :: string where
  "alphabet = ''abcdefghijklmnopqrstuvwxyz''"

definition alphaWords :: "nat \<Rightarrow> string list" where
  "alphaWords n = replicate n alphabet"

definition alphaFresh :: TypingGame where
  "alphaFresh =
     \<lparr>AllWords = replicate 200 alphabet, DisplayLines = [alphabet, alphabet, alphabet],
      UserInput = [], CurrentPos = 0, GlobalPos = 0, StartTime = 0, Duration = 60,
      IsStarted = False, IsFinished = False, Errors = Map.empty, TotalErrorsMade = 0,
      LinesPerView = 3, CharsPerLine = 50, WordsTyped = 0\<rparr>"

definition alphaLineEnd :: TypingGame where
  "alphaLineEnd =
     alphaFresh\<lparr>UserInput := alphabet, CurrentPos := 26, GlobalPos := 26, IsStarted := True\<rparr>"

definition alphaKeys :: "event list" where
  "alphaKeys = map (\<lambda>c. KeyChar c 0 1000 alphaWords) alphabet"

text \<open>The session of \<open>typeWords\<close> in a test of 300 seconds: the text typed when \<open>n\<close>
  lines of ten words have been typed and retired, each with the space that ends it; the
  started session at that moment; the fifty keystrokes of one line; the session when
  fourteen lines are retired and the fifteenth is typed to its end (749 accepted characters,
  140 words consumed of the 200 in the buffer); and that session after the space that
  retires the fifteenth line.\<close>

fun typedText :: "nat \<Rightarrow> string" where
  "typedText 0 = []"
| "typedText (Suc n) = typedText n @ tenWords @ '' ''"

definition typeState :: "nat \<Rightarrow> TypingGame" where
  "typeState n =
     freshGame\<lparr>UserInput := typedText n,
       GlobalPos := 50 * int n, Duration := 300, IsStarted := True,
       WordsTyped := 10 * int n\<rparr>"

definition lineKeys :: "event list" where
  "lineKeys = map (\<lambda>c. KeyChar c 0 1000 typeWords) (tenWords @ '' '')"

definition lineEnd140 :: TypingGame where
  "lineEnd140 =
     freshGame\<lparr>UserInput := typedText 14 @ tenWords,
       CurrentPos := 49, GlobalPos := 749, Duration := 300, IsStarted := True,
       WordsTyped := 140\<rparr>"

definition lineStart150 :: TypingGame where
  "lineStart150 =
     lineEnd140\<lparr>UserInput := UserInput lineEnd140 @ '' '', CurrentPos := 0, GlobalPos := 750,
       WordsTyped := 150\<rparr>"

text \<open>A session is blocked when the word at \<open>WordsTyped\<close> exists and is longer than a
  line.\<close>

definition blocked :: "TypingGame \<Rightarrow> bool" where
  "blocked g =
     (session_inv g \<and> WordsTyped g < int (length (AllWords g))
      \<and> CharsPerLine g < int (length (AllWords g ! nat (WordsTyped g))))"

section \<open>The line wrapper\<close>

declare fillLine.simps [simp del] genLines.simps [simp del] padLines.simps [simp del]

lemma padLines_eq:
  "padLines lines n = lines @ replicate (nat (n - int (length lines))) []"
proof (induction lines n rule: padLines.induct)
  case (1 lines n)
  show ?case
  proof (cases "int (length lines) < n")
    case True
    then have "nat (n - int (length lines)) = Suc (nat (n - int (length (lines @ [[]]))))"
      by simp
    with True "1.IH" show ?thesis
      by (subst padLines.simps) (simp add: replicate_app_Cons_same)
  next
    case False
    then show ?thesis by (subst padLines.simps) simp
  qed
qed

lemma fillLine_total:
  "0 \<le> wi \<Longrightarrow> \<exists>cur' wi'. fillLine ws cpl cur wi = Inr (cur', wi')"
proof (induction ws cpl cur wi rule: fillLine.induct)
  case (1 ws cpl cur wi)
  show ?case
    using "1.prems" "1.IH" by (subst fillLine.simps) (auto simp: Let_def)
qed

lemma fillLine_first_fits:
  assumes "fillLine ws cpl [] wi = Inr (cur, wi')" and "cur \<noteq> []"
  shows "0 \<le> wi \<and> wi < int (length ws) \<and> int (length (ws ! nat wi)) \<le> cpl"
  using assms by (subst (asm) fillLine.simps) (auto simp: Let_def split: if_splits)

lemma genLines_step:
  "k < lpv \<Longrightarrow> wi < int (length ws) \<Longrightarrow>
     genLines ws cpl lpv k lines wi =
       (case fillLine ws cpl [] wi of
          Inl e \<Rightarrow> Inl e
        | Inr (cur, wi') \<Rightarrow> genLines ws cpl lpv (k + 1) (lines @ [cur]) wi')"
  by (subst genLines.simps) (auto split: sum.splits)

lemma genLines_stop:
  "\<not> (k < lpv \<and> wi < int (length ws)) \<Longrightarrow> genLines ws cpl lpv k lines wi = Inr lines"
  by (subst genLines.simps) auto

lemma fillLine_index_mono:
  "fillLine ws cpl cur wi = Inr (cur', wi') \<Longrightarrow> wi \<le> wi'"
proof (induction ws cpl cur wi rule: fillLine.induct)
  case (1 ws cpl cur wi)
  show ?case
  proof (cases "wi < int (length ws) \<and> \<not> wi < 0 \<and>
      int (length cur) + (if length cur > 0 then 1 else 0) + int (length (ws ! nat wi)) \<le> cpl")
    case True
    then have "fillLine ws cpl
        ((if length cur > 0 then cur @ '' '' else cur) @ ws ! nat wi) (wi + 1) = Inr (cur', wi')"
      using "1.prems" by (subst (asm) fillLine.simps) (simp add: Let_def)
    with "1.IH"[OF _ _ refl refl] True have "wi + 1 \<le> wi'" by simp
    then show ?thesis by simp
  next
    case False
    with "1.prems" show ?thesis
      by (subst (asm) fillLine.simps) (auto simp: Let_def split: if_splits)
  qed
qed

lemma genLines_prefix:
  "genLines ws cpl lpv k lines wi = Inr ls \<Longrightarrow> \<exists>rest. ls = lines @ rest"
proof (induction ws cpl lpv k lines wi rule: genLines.induct)
  case (1 ws cpl lpv k lines wi)
  show ?case
  proof (cases "k < lpv \<and> wi < int (length ws)")
    case True
    with "1.prems" obtain cur wi' where
      f: "fillLine ws cpl [] wi = Inr (cur, wi')" and
      g: "genLines ws cpl lpv (k + 1) (lines @ [cur]) wi' = Inr ls"
      by (auto simp: genLines_step split: sum.splits)
    from g have "genLines ws cpl lpv (k + 1)
        (if length cur > 0 then lines @ [cur] else lines @ [[]]) wi' = Inr ls" by auto
    from "1.IH"[OF True f refl this] show ?thesis by (auto split: if_splits)
  next
    case False
    with "1.prems" show ?thesis by (simp add: genLines_stop)
  qed
qed

lemma genLines_total:
  "0 \<le> wi \<Longrightarrow> \<exists>ls. genLines ws cpl lpv k lines wi = Inr ls"
proof (induction ws cpl lpv k lines wi rule: genLines.induct)
  case (1 ws cpl lpv k lines wi)
  show ?case
  proof (cases "k < lpv \<and> wi < int (length ws)")
    case True
    from fillLine_total[OF "1.prems"] obtain cur wi' where
      f: "fillLine ws cpl [] wi = Inr (cur, wi')" by blast
    from fillLine_index_mono[OF f] "1.prems" have "0 \<le> wi'" by simp
    from "1.IH"[OF True f refl this] obtain ls where
      "genLines ws cpl lpv (k + 1) (lines @ [cur]) wi' = Inr ls" by (auto split: if_splits)
    with f True show ?thesis by (simp add: genLines_step)
  next
    case False
    then show ?thesis by (simp add: genLines_stop)
  qed
qed

lemma genLines_length:
  "genLines ws cpl lpv k lines wi = Inr ls \<Longrightarrow> int (length lines) = k \<Longrightarrow> k \<le> lpv
     \<Longrightarrow> int (length ls) \<le> lpv"
proof (induction ws cpl lpv k lines wi rule: genLines.induct)
  case (1 ws cpl lpv k lines wi)
  show ?case
  proof (cases "k < lpv \<and> wi < int (length ws)")
    case True
    with "1.prems"(1) obtain cur wi' where
      f: "fillLine ws cpl [] wi = Inr (cur, wi')" and
      g: "genLines ws cpl lpv (k + 1) (lines @ [cur]) wi' = Inr ls"
      by (auto simp: genLines_step split: sum.splits)
    from g have "genLines ws cpl lpv (k + 1)
        (if length cur > 0 then lines @ [cur] else lines @ [[]]) wi' = Inr ls" by auto
    from "1.IH"[OF True f refl this] "1.prems"(2) True show ?thesis by auto
  next
    case False
    with "1.prems" show ?thesis by (simp add: genLines_stop)
  qed
qed

lemma genLines_first:
  assumes "genLines ws cpl lpv 0 [] wi = Inr ls" and "ls \<noteq> []" and "hd ls \<noteq> []"
  shows "0 \<le> wi \<and> wi < int (length ws) \<and> int (length (ws ! nat wi)) \<le> cpl"
proof (cases "0 < lpv \<and> wi < int (length ws)")
  case True
  with assms(1) obtain cur wi' where
    f: "fillLine ws cpl [] wi = Inr (cur, wi')" and
    g: "genLines ws cpl lpv (0 + 1) ([] @ [cur]) wi' = Inr ls"
    by (auto simp: genLines_step simp del: append_Nil split: sum.splits)
  from genLines_prefix[OF g] have "hd ls = cur" by auto
  with assms(3) fillLine_first_fits[OF f] show ?thesis by simp
next
  case False
  with assms(1) have "ls = []" by (simp add: genLines_stop)
  with assms(2) show ?thesis by simp
qed

section \<open>The session invariant\<close>

lemma generateDisplayLines_spec:
  assumes "0 \<le> LinesPerView g" and "0 \<le> WordsTyped g"
  shows "\<exists>ls. generateDisplayLines g = Inr (g\<lparr>DisplayLines := ls\<rparr>)
           \<and> int (length ls) = LinesPerView g
           \<and> (ls \<noteq> [] \<longrightarrow> hd ls \<noteq> [] \<longrightarrow>
                WordsTyped g < int (length (AllWords g))
                \<and> int (length (AllWords g ! nat (WordsTyped g))) \<le> CharsPerLine g)"
proof -
  from genLines_total[OF assms(2)] obtain ls where
    g: "genLines (AllWords g) (CharsPerLine g) (LinesPerView g) 0 [] (WordsTyped g) = Inr ls"
    by blast
  from genLines_length[OF g] assms(1) have len: "int (length ls) \<le> LinesPerView g" by simp
  let ?out = "padLines ls (LinesPerView g)"
  have "generateDisplayLines g = Inr (g\<lparr>DisplayLines := ?out\<rparr>)"
    using g assms(1) by (simp add: generateDisplayLines_def)
  moreover have "int (length ?out) = LinesPerView g"
    using len by (simp add: padLines_eq)
  moreover have "?out \<noteq> [] \<longrightarrow> hd ?out \<noteq> [] \<longrightarrow>
      WordsTyped g < int (length (AllWords g))
      \<and> int (length (AllWords g ! nat (WordsTyped g))) \<le> CharsPerLine g"
  proof (intro impI)
    assume o: "?out \<noteq> []" and h: "hd ?out \<noteq> []"
    have ne: "ls \<noteq> []"
    proof
      assume "ls = []"
      with h o show False by (cases "nat (LinesPerView g)") (simp_all add: padLines_eq)
    qed
    then have "hd ?out = hd ls" by (simp add: padLines_eq)
    with h genLines_first[OF g ne] show "WordsTyped g < int (length (AllWords g))
      \<and> int (length (AllWords g ! nat (WordsTyped g))) \<le> CharsPerLine g" by simp
  qed
  ultimately show ?thesis by blast
qed

lemma shiftLines_spec:
  assumes "0 \<le> LinesPerView g" and "0 \<le> WordsTyped g" and "DisplayLines g \<noteq> []"
  shows "\<exists>ls. shiftLines g gw =
           Inr (g\<lparr>AllWords :=
                     (if WordsTyped g + int (length (Fields (hd (DisplayLines g))))
                         > int (length (AllWords g)) - 50
                      then AllWords g @ gw 100 else AllWords g),
                   DisplayLines := ls, CurrentPos := 0,
                   WordsTyped := WordsTyped g + int (length (Fields (hd (DisplayLines g))))\<rparr>)
           \<and> int (length ls) = LinesPerView g
           \<and> (ls \<noteq> [] \<longrightarrow> hd ls \<noteq> [] \<longrightarrow>
                WordsTyped g + int (length (Fields (hd (DisplayLines g))))
                   < int (length (AllWords g))
                \<and> int (length (AllWords g !
                     nat (WordsTyped g + int (length (Fields (hd (DisplayLines g)))))))
                   \<le> CharsPerLine g)"
proof -
  let ?g1 = "g\<lparr>WordsTyped := WordsTyped g + int (length (Fields (hd (DisplayLines g)))),
               CurrentPos := 0\<rparr>"
  have "0 \<le> LinesPerView ?g1" "0 \<le> WordsTyped ?g1" using assms by simp_all
  from generateDisplayLines_spec[OF this] obtain ls where
    gen: "generateDisplayLines ?g1 = Inr (?g1\<lparr>DisplayLines := ls\<rparr>)" and
    len: "int (length ls) = LinesPerView ?g1" and
    fst: "ls \<noteq> [] \<longrightarrow> hd ls \<noteq> [] \<longrightarrow>
            WordsTyped ?g1 < int (length (AllWords ?g1))
            \<and> int (length (AllWords ?g1 ! nat (WordsTyped ?g1))) \<le> CharsPerLine ?g1"
    by blast
  from assms(3) obtain l0 rest where dl: "DisplayLines g = l0 # rest" by (cases "DisplayLines g") auto
  have "shiftLines g gw =
           Inr (g\<lparr>AllWords :=
                     (if WordsTyped g + int (length (Fields (hd (DisplayLines g))))
                         > int (length (AllWords g)) - 50
                      then AllWords g @ gw 100 else AllWords g),
                   DisplayLines := ls, CurrentPos := 0,
                   WordsTyped := WordsTyped g + int (length (Fields (hd (DisplayLines g))))\<rparr>)"
    using gen dl by (simp add: shiftLines_def)
  with len fst show ?thesis by (intro exI[of _ ls]) simp
qed


lemma shiftLines_inv:
  assumes "session_inv g"
  shows "\<exists>g'. shiftLines (g\<lparr>UserInput := u, CurrentPos := CurrentPos g + 1,
                               GlobalPos := GlobalPos g + 1\<rparr>) gw = Inr g'
           \<and> session_inv g' \<and> CurrentPos g' = 0 \<and> GlobalPos g' = GlobalPos g + 1
           \<and> WordsTyped g' = WordsTyped g + int (length (Fields (hd (DisplayLines g))))
           \<and> AllWords g' =
                (if WordsTyped g + int (length (Fields (hd (DisplayLines g))))
                      > int (length (AllWords g)) - 50
                 then AllWords g @ gw 100 else AllWords g)
           \<and> StartTime g' = StartTime g \<and> IsStarted g' = IsStarted g
           \<and> IsFinished g' = IsFinished g \<and> Duration g' = Duration g
           \<and> Errors g' = Errors g \<and> TotalErrorsMade g' = TotalErrorsMade g
           \<and> UserInput g' = u"
proof -
  let ?g1 = "g\<lparr>UserInput := u, CurrentPos := CurrentPos g + 1, GlobalPos := GlobalPos g + 1\<rparr>"
  let ?w = "WordsTyped g + int (length (Fields (hd (DisplayLines g))))"
  from assms have a: "0 \<le> LinesPerView ?g1" "0 \<le> WordsTyped ?g1" "DisplayLines ?g1 \<noteq> []"
    by (auto simp: session_inv_def)
  from shiftLines_spec[OF a, of gw] obtain ls where
    s0: "shiftLines ?g1 gw =
          Inr (?g1\<lparr>AllWords :=
                     (if WordsTyped ?g1 + int (length (Fields (hd (DisplayLines ?g1))))
                         > int (length (AllWords ?g1)) - 50
                      then AllWords ?g1 @ gw 100 else AllWords ?g1),
                   DisplayLines := ls, CurrentPos := 0,
                   WordsTyped := WordsTyped ?g1 + int (length (Fields (hd (DisplayLines ?g1))))\<rparr>)" and
    len0: "int (length ls) = LinesPerView ?g1" and
    fst0: "ls \<noteq> [] \<longrightarrow> hd ls \<noteq> [] \<longrightarrow>
            WordsTyped ?g1 + int (length (Fields (hd (DisplayLines ?g1))))
               < int (length (AllWords ?g1))
            \<and> int (length (AllWords ?g1 !
                 nat (WordsTyped ?g1 + int (length (Fields (hd (DisplayLines ?g1)))))))
               \<le> CharsPerLine ?g1"
    by blast
  have s: "shiftLines ?g1 gw =
          Inr (?g1\<lparr>AllWords := (if ?w > int (length (AllWords g)) - 50
                                 then AllWords g @ gw 100 else AllWords g),
                   DisplayLines := ls, CurrentPos := 0, WordsTyped := ?w\<rparr>)"
    using s0 by simp
  have len: "int (length ls) = LinesPerView g" using len0 by simp
  have fst: "ls \<noteq> [] \<longrightarrow> hd ls \<noteq> [] \<longrightarrow>
            ?w < int (length (AllWords g))
            \<and> int (length (AllWords g ! nat ?w)) \<le> CharsPerLine g"
    using fst0 by simp
  from len assms have l3: "length ls = 3" by (simp add: session_inv_def)
  then have ne: "ls \<noteq> []" by auto
  have w0: "0 \<le> ?w" using assms by (simp add: session_inv_def)
  have nth: "?w < int (length (AllWords g)) \<Longrightarrow>
      (AllWords g @ gw 100) ! nat ?w = AllWords g ! nat ?w"
    using w0 by (simp add: nth_append nat_less_iff)
  define g' where "g' = g\<lparr>UserInput := u, CurrentPos := 0, GlobalPos := GlobalPos g + 1,
      AllWords := (if ?w > int (length (AllWords g)) - 50
                   then AllWords g @ gw 100 else AllWords g),
      DisplayLines := ls, WordsTyped := ?w\<rparr>"
  have e: "shiftLines ?g1 gw = Inr g'" unfolding s g'_def by simp
  have "session_inv g'"
    using assms l3 fst ne w0 nth by (auto simp: session_inv_def g'_def)
  with e show ?thesis by (intro exI[of _ g']) (simp add: g'_def)
qed

lemma NewTypingGame_inv:
  "\<exists>g0. NewTypingGame gw d = Inr g0 \<and> session_inv g0 \<and> \<not> IsStarted g0 \<and> \<not> IsFinished g0
     \<and> GlobalPos g0 = 0 \<and> WordsTyped g0 = 0 \<and> AllWords g0 = gw 200 \<and> Duration g0 = d"
proof -
  let ?g = "\<lparr>AllWords = gw 200, DisplayLines = [], UserInput = [], CurrentPos = 0,
            GlobalPos = 0, StartTime = 0, Duration = d, IsStarted = False,
            IsFinished = False, Errors = Map.empty, TotalErrorsMade = 0,
            LinesPerView = 3, CharsPerLine = 50, WordsTyped = 0\<rparr>"
  have "0 \<le> LinesPerView ?g" "0 \<le> WordsTyped ?g" by simp_all
  from generateDisplayLines_spec[OF this] obtain ls where
    gen: "generateDisplayLines ?g = Inr (?g\<lparr>DisplayLines := ls\<rparr>)" and
    len: "int (length ls) = 3" and
    fst: "ls \<noteq> [] \<longrightarrow> hd ls \<noteq> [] \<longrightarrow>
            0 < int (length (gw 200)) \<and> int (length (gw 200 ! nat 0)) \<le> 50"
    by auto
  from len have "length ls = 3" "ls \<noteq> []" by auto
  with gen fst show ?thesis
    by (auto simp: NewTypingGame_def session_inv_def)
qed

lemma AddCharacter_inv:
  assumes "session_inv g"
  shows "\<exists>g'. AddCharacter g c now now' gw = Inr g' \<and> session_inv g'
           \<and> IsStarted g' \<and> StartTime g' = (if IsStarted g then StartTime g else now)
           \<and> (WordsTyped g' = WordsTyped g
                \<or> WordsTyped g' = WordsTyped g + int (length (Fields (hd (DisplayLines g)))))
           \<and> (AllWords g' = AllWords g \<or> AllWords g' = AllWords g @ gw 100)"
proof -
  define g1 where "g1 = (if \<not> IsStarted g then Start g now else g)"
  have i: "session_inv g1" using assms by (auto simp: g1_def session_inv_def Start_def)
  obtain l0 rest where dl: "DisplayLines g1 = l0 # rest"
    using i by (cases "DisplayLines g1") (auto simp: session_inv_def)
  have st: "IsStarted g1" "StartTime g1 = (if IsStarted g then StartTime g else now)"
    "WordsTyped g1 = WordsTyped g" "AllWords g1 = AllWords g" "DisplayLines g1 = DisplayLines g"
    by (auto simp: g1_def Start_def)
  from shiftLines_inv[OF i, of "UserInput g1 @ [c]" gw] obtain g' where
    s: "shiftLines (g1\<lparr>UserInput := UserInput g1 @ [c], CurrentPos := CurrentPos g1 + 1,
                         GlobalPos := GlobalPos g1 + 1\<rparr>) gw = Inr g'" "session_inv g'" and
    s': "IsStarted g'" "StartTime g' = (if IsStarted g then StartTime g else now)"
      "WordsTyped g' = WordsTyped g + int (length (Fields (hd (DisplayLines g))))"
      "AllWords g' = AllWords g \<or> AllWords g' = AllWords g @ gw 100"
    using st by (auto split: if_splits)
  have fin: "session_inv (g1\<lparr>IsFinished := True\<rparr>)"
    using i by (auto simp: session_inv_def)
  have mid: "session_inv (g1\<lparr>UserInput := u, CurrentPos := CurrentPos g1 + 1,
       GlobalPos := GlobalPos g1 + 1\<rparr>)" for u
    using i by (auto simp: session_inv_def)
  have mid': "session_inv (g1\<lparr>UserInput := u, Errors := (Errors g1)(GlobalPos g1 \<mapsto> True),
       TotalErrorsMade := t, CurrentPos := CurrentPos g1 + 1,
       GlobalPos := GlobalPos g1 + 1\<rparr>)" for u t
    using i by (auto simp: session_inv_def)
  have "AddCharacter g c now now' gw =
     (if IsFinished g1 \<or> IsTimeUp g1 now' then Inr (g1\<lparr>IsFinished := True\<rparr>)
      else if CurrentPos g1 = int (length l0) then
        (if c = CHR '' '' then Inr g' else Inr g1)
      else if CurrentPos g1 < int (length l0) \<and> CurrentPos g1 \<ge> 0 then
        (if l0 ! nat (CurrentPos g1) \<noteq> c
         then Inr (g1\<lparr>UserInput := UserInput g1 @ [c],
                Errors := (Errors g1)(GlobalPos g1 \<mapsto> True),
                TotalErrorsMade := TotalErrorsMade g1 + 1, CurrentPos := CurrentPos g1 + 1,
                GlobalPos := GlobalPos g1 + 1\<rparr>)
         else Inr (g1\<lparr>UserInput := UserInput g1 @ [c], CurrentPos := CurrentPos g1 + 1,
                GlobalPos := GlobalPos g1 + 1\<rparr>))
      else Inr g1)"
    using s(1) dl unfolding AddCharacter_def g1_def[symmetric] by (auto simp: Let_def)
  with i fin s(2) s' st mid mid' show ?thesis by auto
qed

lemma HandleEnterKey_inv:
  assumes "session_inv g"
  shows "\<exists>ok g'. HandleEnterKey g now gw = Inr (ok, g') \<and> session_inv g'
           \<and> IsStarted g' = IsStarted g \<and> StartTime g' = StartTime g
           \<and> (WordsTyped g' = WordsTyped g
                \<or> WordsTyped g' = WordsTyped g + int (length (Fields (hd (DisplayLines g)))))
           \<and> (AllWords g' = AllWords g \<or> AllWords g' = AllWords g @ gw 100)"
proof -
  obtain l0 rest where dl: "DisplayLines g = l0 # rest"
    using assms by (cases "DisplayLines g") (auto simp: session_inv_def)
  from shiftLines_inv[OF assms, of "UserInput g @ '' ''" gw] obtain g' where
    s: "shiftLines (g\<lparr>UserInput := UserInput g @ '' '', CurrentPos := CurrentPos g + 1,
                         GlobalPos := GlobalPos g + 1\<rparr>) gw = Inr g'" "session_inv g'" and
    s': "IsStarted g' = IsStarted g" "StartTime g' = StartTime g"
      "WordsTyped g' = WordsTyped g + int (length (Fields (hd (DisplayLines g))))"
      "AllWords g' = AllWords g \<or> AllWords g' = AllWords g @ gw 100"
    by (auto split: if_splits)
  have "HandleEnterKey g now gw =
     (if IsFinished g \<or> IsTimeUp g now then Inr (False, g)
      else if CurrentPos g = int (length l0) then Inr (True, g') else Inr (False, g))"
    using s(1) dl by (auto simp: HandleEnterKey_def)
  with assms s(2) s' show ?thesis by auto
qed

lemma RemoveCharacter_inv:
  assumes "session_inv g"
  shows "session_inv (RemoveCharacter g)"
  using assms by (auto simp: session_inv_def RemoveCharacter_def Let_def)


lemma step_inv:
  assumes "session_inv g"
  shows "\<exists>g'. step g e = Inr g' \<and> session_inv g'"
proof (cases e)
  case (KeyChar c now now' gw)
  with AddCharacter_inv[OF assms, of c now now' gw] show ?thesis by auto
next
  case (KeyEnter now gw)
  from HandleEnterKey_inv[OF assms, of now gw] obtain ok g' where
    "HandleEnterKey g now gw = Inr (ok, g')" "session_inv g'" by blast
  with KeyEnter show ?thesis by simp
next
  case KeyBackspace
  with RemoveCharacter_inv[OF assms] show ?thesis by simp
qed

lemma run_inv:
  "session_inv g \<Longrightarrow> \<exists>g'. run g es = Inr g' \<and> session_inv g'"
proof (induction es arbitrary: g)
  case Nil
  then show ?case by simp
next
  case (Cons e es)
  from step_inv[OF Cons.prems] obtain g1 where
    s: "step g e = Inr g1" "session_inv g1" by blast
  from Cons.IH[OF s(2)] s(1) show ?case by simp
qed

lemma reachable_inv: "reachable g \<Longrightarrow> session_inv g"
proof -
  assume "reachable g"
  then obtain gw d g0 es where
    n: "NewTypingGame gw d = Inr g0" and r: "run g0 es = Inr g"
    unfolding reachable_def by blast
  from NewTypingGame_inv[of gw d] n have "session_inv g0" by auto
  from run_inv[OF this, of es] r show ?thesis by simp
qed

lemma run_append:
  "run g (es @ es') = (case run g es of Inl err \<Rightarrow> Inl err | Inr g' \<Rightarrow> run g' es')"
  by (induction es arbitrary: g) (auto split: sum.splits)

lemma reachable_run: "reachable g \<Longrightarrow> run g es = Inr g' \<Longrightarrow> reachable g'"
  unfolding reachable_def by (metis run_append sum.simps(6))

section \<open>The example sessions are reachable\<close>

lemmas eval_defs = NewTypingGame_def generateDisplayLines_def fillLine.simps genLines.simps
  padLines.simps AddCharacter_def HandleEnterKey_def RemoveCharacter_def shiftLines_def
  Start_def IsTimeUp_def Seconds_def Let_def Fields_def asciiSpace_def

lemma new_freshGame: "NewTypingGame typeWords 10 = Inr freshGame"
  by (simp add: eval_defs typeWords_def freshGame_def tenWords_def)

lemma run_typedT: "run freshGame [KeyChar CHR ''t'' 0 5 typeWords] = Inr typedT"
  by (simp add: eval_defs typeWords_def freshGame_def typedT_def tenWords_def)

lemma reachable_freshGame: "reachable freshGame"
  unfolding reachable_def using new_freshGame run.simps(1) by blast

lemma reachable_typedT: "reachable typedT"
  unfolding reachable_def using new_freshGame run_typedT by blast


lemma new_stuckGame: "NewTypingGame longWords 60 = Inr stuckGame"
  by (simp add: eval_defs longWords_def stuckGame_def)

lemma reachable_stuckGame: "reachable stuckGame"
  unfolding reachable_def using new_stuckGame run.simps(1) by blast

lemma new_alphaFresh: "NewTypingGame alphaWords 60 = Inr alphaFresh"
  by (simp add: eval_defs alphaWords_def alphaFresh_def alphabet_def)

lemma run_alphaLineEnd: "run alphaFresh alphaKeys = Inr alphaLineEnd"
  by (simp add: eval_defs alphaWords_def alphaFresh_def alphaLineEnd_def alphabet_def alphaKeys_def)

lemma reachable_alphaLineEnd: "reachable alphaLineEnd"
  unfolding reachable_def using new_alphaFresh run_alphaLineEnd by blast

lemma new_typeGame300: "NewTypingGame typeWords 300 = Inr (freshGame\<lparr>Duration := 300\<rparr>)"
  by (simp add: eval_defs typeWords_def freshGame_def tenWords_def)

lemma type_first_line: "run (freshGame\<lparr>Duration := 300\<rparr>) lineKeys = Inr (typeState 1)"
  by (simp add: eval_defs typeWords_def freshGame_def typeState_def tenWords_def lineKeys_def)

lemma type_one_line:
  assumes "n < 15"
  shows "run (typeState n) lineKeys = Inr (typeState (Suc n))"
proof -
  have "run (typeState n) lineKeys =
    Inr (typeState n\<lparr>UserInput := typedText n @ (tenWords @ '' ''),
       GlobalPos := 50 * int n + 50, WordsTyped := 10 * int n + 10\<rparr>)"
    using assms
    by (simp add: eval_defs typeWords_def freshGame_def typeState_def tenWords_def lineKeys_def
        del: typedText.simps)
  then show ?thesis
    by (simp add: typeState_def algebra_simps)
qed

lemma reachable_typeState: "n < 15 \<Longrightarrow> reachable (typeState (Suc n))"
proof (induction n)
  case 0
  show ?case unfolding reachable_def
    using new_typeGame300 type_first_line by (intro exI conjI) auto
next
  case (Suc n)
  then have "reachable (typeState (Suc n))" by simp
  from reachable_run[OF this type_one_line] Suc.prems show ?case by simp
qed

lemma type_last_line:
  "run (typeState 14) (map (\<lambda>c. KeyChar c 0 1000 typeWords) tenWords) = Inr lineEnd140"
  by (simp add: eval_defs typeWords_def freshGame_def typeState_def tenWords_def lineEnd140_def
        del: typedText.simps)

lemma reachable_lineEnd140: "reachable lineEnd140"
proof -
  have "reachable (typeState (Suc 13))" by (rule reachable_typeState) simp
  then have "reachable (typeState 14)" by simp
  from reachable_run[OF this type_last_line] show ?thesis .
qed

lemma shift_lineEnd140:
  "AddCharacter lineEnd140 CHR '' '' 0 299000000000 typeWords = Inr lineStart150"
  by (simp add: eval_defs typeWords_def freshGame_def lineEnd140_def lineStart150_def tenWords_def)

section \<open>Keystrokes\<close>

lemma AddCharacter_running:
  assumes "IsStarted g" and "\<not> IsFinished g" and "\<not> IsTimeUp g now'"
    and "DisplayLines g = l0 # rest"
  shows "AddCharacter g c now now' gw =
     (if CurrentPos g = int (length l0) then
        (if c = CHR '' '' then
           shiftLines (g\<lparr>UserInput := UserInput g @ [c], CurrentPos := CurrentPos g + 1,
                          GlobalPos := GlobalPos g + 1\<rparr>) gw
         else Inr g)
      else if CurrentPos g < int (length l0) \<and> CurrentPos g \<ge> 0 then
        Inr (g\<lparr>UserInput := UserInput g @ [c],
               Errors := (if l0 ! nat (CurrentPos g) \<noteq> c
                          then (Errors g)(GlobalPos g \<mapsto> True) else Errors g),
               TotalErrorsMade := (if l0 ! nat (CurrentPos g) \<noteq> c
                          then TotalErrorsMade g + 1 else TotalErrorsMade g),
               CurrentPos := CurrentPos g + 1, GlobalPos := GlobalPos g + 1\<rparr>)
      else Inr g)"
  using assms by (auto simp: AddCharacter_def Let_def)

lemma HandleEnterKey_end:
  assumes "\<not> IsFinished g" and "\<not> IsTimeUp g now"
    and "DisplayLines g = l0 # rest" and "CurrentPos g = int (length l0)"
  shows "HandleEnterKey g now gw =
     (case shiftLines (g\<lparr>UserInput := UserInput g @ '' '', CurrentPos := CurrentPos g + 1,
                         GlobalPos := GlobalPos g + 1\<rparr>) gw of
        Inl e \<Rightarrow> Inl e | Inr g' \<Rightarrow> Inr (True, g'))"
  using assms by (simp add: HandleEnterKey_def)

lemma AddCharacter_space_end:
  assumes "\<not> IsFinished g" and "\<not> IsTimeUp (Start g now) now'"
    and "DisplayLines g = l0 # rest" and "CurrentPos g = int (length l0)"
  shows "AddCharacter g CHR '' '' now now' gw =
     shiftLines (Start g now\<lparr>UserInput := UserInput g @ '' '', CurrentPos := CurrentPos g + 1,
                              GlobalPos := GlobalPos g + 1\<rparr>) gw"
  using assms by (auto simp: AddCharacter_def Start_def Let_def)

lemma Start_inv: "session_inv g \<Longrightarrow> session_inv (Start g now)"
  by (auto simp: session_inv_def Start_def)

lemma Start_not_up: "\<not> IsTimeUp (Start g now) now' \<Longrightarrow> \<not> IsTimeUp g now'"
  by (auto simp: IsTimeUp_def Start_def split: if_splits)

lemma Fields_Nil: "Fields [] = []"
  by (simp add: Fields_def)

lemma step_words:
  assumes "session_inv g"
  shows "\<exists>g'. step g e = Inr g' \<and> session_inv g'
           \<and> (WordsTyped g' = WordsTyped g
                \<or> WordsTyped g' = WordsTyped g + int (length (Fields (hd (DisplayLines g)))))
           \<and> (\<exists>ws. AllWords g' = AllWords g @ ws)"
proof (cases e)
  case (KeyChar c now now' gw)
  from AddCharacter_inv[OF assms, of c now now' gw] obtain g' where
    "AddCharacter g c now now' gw = Inr g'" "session_inv g'"
    "WordsTyped g' = WordsTyped g
       \<or> WordsTyped g' = WordsTyped g + int (length (Fields (hd (DisplayLines g))))"
    "AllWords g' = AllWords g \<or> AllWords g' = AllWords g @ gw 100" by blast
  with KeyChar show ?thesis by (intro exI[of _ g']) auto
next
  case (KeyEnter now gw)
  from HandleEnterKey_inv[OF assms, of now gw] obtain ok g' where
    "HandleEnterKey g now gw = Inr (ok, g')" "session_inv g'"
    "WordsTyped g' = WordsTyped g
       \<or> WordsTyped g' = WordsTyped g + int (length (Fields (hd (DisplayLines g))))"
    "AllWords g' = AllWords g \<or> AllWords g' = AllWords g @ gw 100" by blast
  with KeyEnter show ?thesis by (intro exI[of _ g']) auto
next
  case KeyBackspace
  have "WordsTyped (RemoveCharacter g) = WordsTyped g"
    "AllWords (RemoveCharacter g) = AllWords g"
    by (simp_all add: RemoveCharacter_def Let_def)
  with KeyBackspace RemoveCharacter_inv[OF assms] show ?thesis by simp
qed

lemma blocked_first_line: "blocked g \<Longrightarrow> hd (DisplayLines g) = []"
  by (auto simp: blocked_def session_inv_def)

lemma step_blocked:
  assumes "blocked g"
  shows "\<exists>g'. step g e = Inr g' \<and> blocked g' \<and> WordsTyped g' = WordsTyped g"
proof -
  from assms have i: "session_inv g" by (simp add: blocked_def)
  from step_words[OF i, of e] obtain g' ws where
    s: "step g e = Inr g'" "session_inv g'" and
    w: "WordsTyped g' = WordsTyped g
       \<or> WordsTyped g' = WordsTyped g + int (length (Fields (hd (DisplayLines g))))" and
    a: "AllWords g' = AllWords g @ ws" by blast
  from w blocked_first_line[OF assms] have w': "WordsTyped g' = WordsTyped g"
    by (simp add: Fields_Nil)
  from assms i have "nat (WordsTyped g) < length (AllWords g)"
    by (simp add: blocked_def session_inv_def nat_less_iff)
  then have "AllWords g' ! nat (WordsTyped g) = AllWords g ! nat (WordsTyped g)"
    by (simp add: a nth_append)
  with assms s w' a have "blocked g'"
    by (auto simp: blocked_def session_inv_def)
  with s w' show ?thesis by blast
qed

lemma run_blocked:
  "blocked g \<Longrightarrow> \<exists>g'. run g es = Inr g' \<and> blocked g' \<and> WordsTyped g' = WordsTyped g"
proof (induction es arbitrary: g)
  case Nil
  then show ?case by simp
next
  case (Cons e es)
  from step_blocked[OF Cons.prems, of e] obtain g1 where
    s: "step g e = Inr g1" "blocked g1" "WordsTyped g1 = WordsTyped g" by blast
  from Cons.IH[OF s(2)] s(1,3) show ?case by auto
qed

text \<open>
  Claim C4. In a running session (started, not finished, time not up) whose cursor is before
  the end of the first display line, \<^verbatim>\<open>AddCharacter(c)\<close>, for every \<open>c\<close> and so for a space
  too, compares the character of the line at \<open>CurrentPos\<close> with \<open>c\<close>. On a mismatch it
  records an error at the current \<open>GlobalPos\<close> and adds one to \<open>TotalErrorsMade\<close>; on a
  match it leaves both alone. In both cases \<open>CurrentPos\<close> and \<open>GlobalPos\<close> grow by exactly
  one, the typed character is appended to \<open>UserInput\<close>, and nothing else changes: the
  display lines, the word buffer and \<open>WordsTyped\<close> stay, so no line advance happens.
\<close>

theorem AddCharacter_mid_line:
  assumes "reachable g" and "IsStarted g" and "\<not> IsFinished g" and "\<not> IsTimeUp g now'"
    and "CurrentPos g < int (length (hd (DisplayLines g)))"
  shows "AddCharacter g c now now' GenerateWords =
     Inr (g\<lparr>UserInput := UserInput g @ [c],
            Errors := (if hd (DisplayLines g) ! nat (CurrentPos g) \<noteq> c
                       then (Errors g)(GlobalPos g \<mapsto> True) else Errors g),
            TotalErrorsMade := (if hd (DisplayLines g) ! nat (CurrentPos g) \<noteq> c
                       then TotalErrorsMade g + 1 else TotalErrorsMade g),
            CurrentPos := CurrentPos g + 1, GlobalPos := GlobalPos g + 1\<rparr>)"
proof -
  from reachable_inv[OF assms(1)] have i: "session_inv g" .
  then obtain l0 rest where dl: "DisplayLines g = l0 # rest"
    by (cases "DisplayLines g") (auto simp: session_inv_def)
  from i have "0 \<le> CurrentPos g" by (simp add: session_inv_def)
  with assms(5) dl show ?thesis
    by (simp add: AddCharacter_running[OF assms(2-4) dl])
qed

theorem AddCharacter_mid_line_witness:
  "reachable typedT \<and> IsStarted typedT \<and> \<not> IsFinished typedT
   \<and> \<not> IsTimeUp typedT 2000000000
   \<and> CurrentPos typedT < int (length (hd (DisplayLines typedT)))
   \<and> AddCharacter typedT CHR '' '' 2000000000 2000000000 typeWords =
       Inr (typedT\<lparr>UserInput := ''t '', Errors := [1 \<mapsto> True], TotalErrorsMade := 1,
                   CurrentPos := 2, GlobalPos := 2\<rparr>)
   \<and> AddCharacter typedT CHR ''y'' 2000000000 2000000000 typeWords =
       Inr (typedT\<lparr>UserInput := ''ty'', CurrentPos := 2, GlobalPos := 2\<rparr>)"
proof -
  have h: "IsStarted typedT" "\<not> IsFinished typedT" "\<not> IsTimeUp typedT 2000000000"
    "CurrentPos typedT < int (length (hd (DisplayLines typedT)))"
    by (simp_all add: typedT_def freshGame_def tenWords_def IsTimeUp_def Seconds_def)
  from AddCharacter_mid_line[OF reachable_typedT h, of "CHR '' ''" 2000000000 typeWords]
    AddCharacter_mid_line[OF reachable_typedT h, of "CHR ''y''" 2000000000 typeWords]
    reachable_typedT h
  show ?thesis by (simp add: typedT_def freshGame_def tenWords_def)
qed

text \<open>
  Claim C5. In a running session, a mistyped character in the middle of the line followed at
  once by \<^verbatim>\<open>RemoveCharacter\<close> leaves \<open>Errors\<close> exactly as it was before the mistype (the
  mistype had added the key \<open>GlobalPos\<close>), while \<open>TotalErrorsMade\<close> stays one higher; both
  positions are back where they were.
\<close>

theorem mistype_then_backspace:
  assumes "reachable g" and "IsStarted g" and "\<not> IsFinished g" and "\<not> IsTimeUp g now'"
    and "CurrentPos g < int (length (hd (DisplayLines g)))"
    and "hd (DisplayLines g) ! nat (CurrentPos g) \<noteq> c"
  shows "\<exists>g1. AddCharacter g c now now' GenerateWords = Inr g1
           \<and> Errors g1 = (Errors g)(GlobalPos g \<mapsto> True)
           \<and> TotalErrorsMade g1 = TotalErrorsMade g + 1
           \<and> Errors (RemoveCharacter g1) = Errors g
           \<and> TotalErrorsMade (RemoveCharacter g1) = TotalErrorsMade g + 1
           \<and> CurrentPos (RemoveCharacter g1) = CurrentPos g
           \<and> GlobalPos (RemoveCharacter g1) = GlobalPos g"
proof -
  from reachable_inv[OF assms(1)] have i: "session_inv g" .
  then obtain l0 rest where dl: "DisplayLines g = l0 # rest"
    by (cases "DisplayLines g") (auto simp: session_inv_def)
  from i have p: "0 \<le> CurrentPos g" and e: "Errors g (GlobalPos g) = None"
    by (simp_all add: session_inv_def)
  let ?g1 = "g\<lparr>UserInput := UserInput g @ [c], Errors := (Errors g)(GlobalPos g \<mapsto> True),
               TotalErrorsMade := TotalErrorsMade g + 1,
               CurrentPos := CurrentPos g + 1, GlobalPos := GlobalPos g + 1\<rparr>"
  have a: "AddCharacter g c now now' GenerateWords = Inr ?g1"
    using assms(5,6) dl p by (simp add: AddCharacter_running[OF assms(2-4) dl])
  have "((Errors g)(GlobalPos g \<mapsto> True))(GlobalPos g := None) = Errors g"
    using e by (simp add: fun_upd_idem)
  then have "Errors (RemoveCharacter ?g1) = Errors g"
    using p by (simp add: RemoveCharacter_def Let_def)
  moreover have "TotalErrorsMade (RemoveCharacter ?g1) = TotalErrorsMade g + 1"
    "CurrentPos (RemoveCharacter ?g1) = CurrentPos g"
    "GlobalPos (RemoveCharacter ?g1) = GlobalPos g"
    using p by (simp_all add: RemoveCharacter_def Let_def)
  ultimately show ?thesis using a by (intro exI[of _ ?g1]) simp
qed

theorem mistype_then_backspace_witness:
  "reachable typedT \<and> IsStarted typedT \<and> \<not> IsFinished typedT
   \<and> \<not> IsTimeUp typedT 2000000000
   \<and> CurrentPos typedT < int (length (hd (DisplayLines typedT)))
   \<and> hd (DisplayLines typedT) ! nat (CurrentPos typedT) \<noteq> CHR ''x''
   \<and> (\<exists>g1. AddCharacter typedT CHR ''x'' 2000000000 2000000000 typeWords = Inr g1
         \<and> Errors g1 = (Errors typedT)(GlobalPos typedT \<mapsto> True)
         \<and> TotalErrorsMade g1 = TotalErrorsMade typedT + 1
         \<and> Errors (RemoveCharacter g1) = Errors typedT
         \<and> TotalErrorsMade (RemoveCharacter g1) = TotalErrorsMade typedT + 1
         \<and> CurrentPos (RemoveCharacter g1) = CurrentPos typedT
         \<and> GlobalPos (RemoveCharacter g1) = GlobalPos typedT)"
proof -
  have h: "IsStarted typedT" "\<not> IsFinished typedT" "\<not> IsTimeUp typedT 2000000000"
    "CurrentPos typedT < int (length (hd (DisplayLines typedT)))"
    "hd (DisplayLines typedT) ! nat (CurrentPos typedT) \<noteq> CHR ''x''"
    by (simp_all add: typedT_def freshGame_def tenWords_def IsTimeUp_def Seconds_def)
  from mistype_then_backspace[OF reachable_typedT h, of 2000000000 typeWords]
    reachable_typedT h
  show ?thesis by blast
qed

text \<open>
  Claim C8. \<^verbatim>\<open>RemoveCharacter\<close> returns the session unchanged when \<open>CurrentPos\<close> is 0 or
  \<open>UserInput\<close> is empty (it cannot report an error: it is total). With a positive
  \<open>CurrentPos\<close> and some input it drops the last byte of the input, takes one from
  \<open>CurrentPos\<close> and from \<open>GlobalPos\<close>, and deletes the entry of \<open>Errors\<close> at the new
  \<open>GlobalPos\<close>, changing nothing else. In every reachable session \<open>CurrentPos\<close> and
  \<open>GlobalPos\<close> are not negative, also after a backspace.
\<close>

theorem RemoveCharacter_backspace:
  "(CurrentPos g = 0 \<or> UserInput g = [] \<longrightarrow> RemoveCharacter g = g)
   \<and> (0 < CurrentPos g \<and> UserInput g \<noteq> [] \<longrightarrow>
        RemoveCharacter g =
          g\<lparr>UserInput := butlast (UserInput g), CurrentPos := CurrentPos g - 1,
            GlobalPos := GlobalPos g - 1,
            Errors := (Errors g)(GlobalPos g - 1 := None)\<rparr>)
   \<and> (reachable g \<longrightarrow>
        0 \<le> CurrentPos g \<and> 0 \<le> GlobalPos g \<and> 0 \<le> GlobalPos (RemoveCharacter g))"
proof (intro conjI impI)
  assume "CurrentPos g = 0 \<or> UserInput g = []"
  then show "RemoveCharacter g = g" by (auto simp: RemoveCharacter_def)
next
  assume "0 < CurrentPos g \<and> UserInput g \<noteq> []"
  then show "RemoveCharacter g =
      g\<lparr>UserInput := butlast (UserInput g), CurrentPos := CurrentPos g - 1,
        GlobalPos := GlobalPos g - 1, Errors := (Errors g)(GlobalPos g - 1 := None)\<rparr>"
    by (simp add: RemoveCharacter_def Let_def butlast_conv_take)
next
  assume r: "reachable g"
  from reachable_inv[OF r] show "0 \<le> CurrentPos g" by (simp add: session_inv_def)
  from reachable_inv[OF r] show "0 \<le> GlobalPos g" by (simp add: session_inv_def)
  from RemoveCharacter_inv[OF reachable_inv[OF r]]
  show "0 \<le> GlobalPos (RemoveCharacter g)" by (simp add: session_inv_def)
qed

theorem RemoveCharacter_backspace_witness:
  "(CurrentPos freshGame = 0 \<or> UserInput freshGame = [])
   \<and> RemoveCharacter freshGame = freshGame
   \<and> 0 < CurrentPos typedT \<and> UserInput typedT \<noteq> []
   \<and> RemoveCharacter typedT = typedT\<lparr>UserInput := [], CurrentPos := 0, GlobalPos := 0\<rparr>
   \<and> reachable typedT
   \<and> 0 \<le> GlobalPos typedT \<and> 0 \<le> GlobalPos (RemoveCharacter typedT)"
proof -
  have a: "CurrentPos freshGame = 0 \<or> UserInput freshGame = []"
    by (simp add: freshGame_def)
  have b: "0 < CurrentPos typedT \<and> UserInput typedT \<noteq> []"
    by (simp add: typedT_def)
  from RemoveCharacter_backspace[of freshGame] a
  have 1: "RemoveCharacter freshGame = freshGame" by blast
  from RemoveCharacter_backspace[of typedT] b
  have 2: "RemoveCharacter typedT =
      typedT\<lparr>UserInput := butlast (UserInput typedT), CurrentPos := CurrentPos typedT - 1,
        GlobalPos := GlobalPos typedT - 1,
        Errors := (Errors typedT)(GlobalPos typedT - 1 := None)\<rparr>" by blast
  from RemoveCharacter_backspace[of typedT] reachable_typedT
  have 3: "0 \<le> GlobalPos typedT \<and> 0 \<le> GlobalPos (RemoveCharacter typedT)" by blast
  have "typedT\<lparr>UserInput := butlast (UserInput typedT), CurrentPos := CurrentPos typedT - 1,
        GlobalPos := GlobalPos typedT - 1,
        Errors := (Errors typedT)(GlobalPos typedT - 1 := None)\<rparr>
      = typedT\<lparr>UserInput := [], CurrentPos := 0, GlobalPos := 0\<rparr>"
    by (simp add: typedT_def freshGame_def)
  with a b 1 2 3 reachable_typedT show ?thesis by simp
qed

section \<open>The display window\<close>

text \<open>
  Claim C7. In every session reachable from \<^verbatim>\<open>NewTypingGame\<close> the display window has
  exactly \<open>LinesPerView\<close> = 3 lines. A space or an Enter accepted at the end of the first line
  (session not finished, time not up) returns without a panic, counts as one more accepted
  character, and leaves a window of three lines again with \<open>CurrentPos\<close> = 0.
\<close>

theorem display_window_three_lines:
  assumes "reachable g"
  shows "length (DisplayLines g) = 3 \<and> LinesPerView g = 3
    \<and> (\<not> IsFinished g \<and> \<not> IsTimeUp (Start g now) now'
          \<and> CurrentPos g = int (length (hd (DisplayLines g))) \<longrightarrow>
        (\<exists>g'. AddCharacter g CHR '' '' now now' GenerateWords = Inr g'
           \<and> GlobalPos g' = GlobalPos g + 1
           \<and> int (length (DisplayLines g')) = LinesPerView g' \<and> LinesPerView g' = 3
           \<and> CurrentPos g' = 0))
    \<and> (\<not> IsFinished g \<and> \<not> IsTimeUp g now'
          \<and> CurrentPos g = int (length (hd (DisplayLines g))) \<longrightarrow>
        (\<exists>g'. HandleEnterKey g now' GenerateWords = Inr (True, g')
           \<and> GlobalPos g' = GlobalPos g + 1
           \<and> int (length (DisplayLines g')) = LinesPerView g' \<and> LinesPerView g' = 3
           \<and> CurrentPos g' = 0))"
proof (intro conjI impI)
  from reachable_inv[OF assms] have i: "session_inv g" .
  then obtain l0 rest where dl: "DisplayLines g = l0 # rest"
    by (cases "DisplayLines g") (auto simp: session_inv_def)
  from i show "length (DisplayLines g) = 3" "LinesPerView g = 3"
    by (simp_all add: session_inv_def)
  {
    assume a: "\<not> IsFinished g \<and> \<not> IsTimeUp (Start g now) now'
          \<and> CurrentPos g = int (length (hd (DisplayLines g)))"
    have sdl: "DisplayLines (Start g now) = l0 # rest" "CurrentPos (Start g now) = CurrentPos g"
      "GlobalPos (Start g now) = GlobalPos g" "UserInput (Start g now) = UserInput g"
      using dl by (simp_all add: Start_def)
    from shiftLines_inv[OF Start_inv[OF i], of now "UserInput g @ '' ''" GenerateWords]
    obtain g' where
      s: "shiftLines (Start g now\<lparr>UserInput := UserInput g @ '' '',
             CurrentPos := CurrentPos g + 1, GlobalPos := GlobalPos g + 1\<rparr>) GenerateWords
           = Inr g'" and
      p: "session_inv g'" "CurrentPos g' = 0" "GlobalPos g' = GlobalPos g + 1"
      unfolding sdl by blast
    from a dl have nf: "\<not> IsFinished g" and nt: "\<not> IsTimeUp (Start g now) now'"
      and cp: "CurrentPos g = int (length l0)" by simp_all
    have "AddCharacter g CHR '' '' now now' GenerateWords = Inr g'"
      unfolding AddCharacter_space_end[OF nf nt dl cp] by (rule s)
    with p show "\<exists>g'. AddCharacter g CHR '' '' now now' GenerateWords = Inr g'
           \<and> GlobalPos g' = GlobalPos g + 1
           \<and> int (length (DisplayLines g')) = LinesPerView g' \<and> LinesPerView g' = 3
           \<and> CurrentPos g' = 0"
      by (auto simp: session_inv_def)
  }
  {
    assume a: "\<not> IsFinished g \<and> \<not> IsTimeUp g now'
          \<and> CurrentPos g = int (length (hd (DisplayLines g)))"
    from shiftLines_inv[OF i, of "UserInput g @ '' ''" GenerateWords]
    obtain g' where
      s: "shiftLines (g\<lparr>UserInput := UserInput g @ '' '',
             CurrentPos := CurrentPos g + 1, GlobalPos := GlobalPos g + 1\<rparr>) GenerateWords
           = Inr g'" and
      p: "session_inv g'" "CurrentPos g' = 0" "GlobalPos g' = GlobalPos g + 1"
      by blast
    from a dl have nf: "\<not> IsFinished g" and nt: "\<not> IsTimeUp g now'"
      and cp: "CurrentPos g = int (length l0)" by simp_all
    have "HandleEnterKey g now' GenerateWords = Inr (True, g')"
      unfolding HandleEnterKey_end[OF nf nt dl cp] s by simp
    with p show "\<exists>g'. HandleEnterKey g now' GenerateWords = Inr (True, g')
           \<and> GlobalPos g' = GlobalPos g + 1
           \<and> int (length (DisplayLines g')) = LinesPerView g' \<and> LinesPerView g' = 3
           \<and> CurrentPos g' = 0"
      by (auto simp: session_inv_def)
  }
qed

theorem display_window_three_lines_witness:
  "reachable alphaLineEnd \<and> length (DisplayLines alphaLineEnd) = 3
   \<and> LinesPerView alphaLineEnd = 3
   \<and> \<not> IsFinished alphaLineEnd \<and> \<not> IsTimeUp (Start alphaLineEnd 0) 2000
   \<and> \<not> IsTimeUp alphaLineEnd 2000
   \<and> CurrentPos alphaLineEnd = int (length (hd (DisplayLines alphaLineEnd)))
   \<and> (\<exists>g'. AddCharacter alphaLineEnd CHR '' '' 0 2000 alphaWords = Inr g'
         \<and> GlobalPos g' = GlobalPos alphaLineEnd + 1
         \<and> int (length (DisplayLines g')) = LinesPerView g' \<and> LinesPerView g' = 3
         \<and> CurrentPos g' = 0)
   \<and> (\<exists>g'. HandleEnterKey alphaLineEnd 2000 alphaWords = Inr (True, g')
         \<and> GlobalPos g' = GlobalPos alphaLineEnd + 1
         \<and> int (length (DisplayLines g')) = LinesPerView g' \<and> LinesPerView g' = 3
         \<and> CurrentPos g' = 0)"
proof -
  have h: "\<not> IsFinished alphaLineEnd" "\<not> IsTimeUp (Start alphaLineEnd 0) 2000"
    "\<not> IsTimeUp alphaLineEnd 2000"
    "CurrentPos alphaLineEnd = int (length (hd (DisplayLines alphaLineEnd)))"
    by (simp_all add: alphaLineEnd_def alphaFresh_def alphabet_def IsTimeUp_def Start_def
        Seconds_def)
  from display_window_three_lines[OF reachable_alphaLineEnd, of 0 2000 alphaWords]
    reachable_alphaLineEnd h
  show ?thesis by blast
qed

text \<open>
  Claim C10. In a reachable session whose word at index \<open>WordsTyped\<close> is longer than
  \<open>CharsPerLine\<close>, \<^verbatim>\<open>generateDisplayLines\<close> gives an empty first line, the first line on
  display is empty, a line advance adds zero to \<open>WordsTyped\<close>, and every sequence of
  \<^verbatim>\<open>AddCharacter\<close>, \<^verbatim>\<open>HandleEnterKey\<close> and \<^verbatim>\<open>RemoveCharacter\<close> runs to its end with
  \<open>WordsTyped\<close> where it was, the over-long word still at that index.
\<close>

theorem overlong_word_blocks:
  assumes "reachable g" and "WordsTyped g < int (length (AllWords g))"
    and "CharsPerLine g < int (length (AllWords g ! nat (WordsTyped g)))"
  shows "(\<exists>g'. generateDisplayLines g = Inr g' \<and> hd (DisplayLines g') = [])
    \<and> hd (DisplayLines g) = []
    \<and> (\<exists>g'. shiftLines g GenerateWords = Inr g' \<and> WordsTyped g' = WordsTyped g + 0)
    \<and> (\<exists>g'. run g es = Inr g' \<and> WordsTyped g' = WordsTyped g
          \<and> CharsPerLine g' < int (length (AllWords g' ! nat (WordsTyped g'))))"
proof -
  from reachable_inv[OF assms(1)] have i: "session_inv g" .
  with assms have b: "blocked g" by (simp add: blocked_def)
  from i have l: "0 \<le> LinesPerView g" "0 \<le> WordsTyped g" and d: "DisplayLines g \<noteq> []"
    by (auto simp: session_inv_def)
  from generateDisplayLines_spec[OF l] obtain ls where
    "generateDisplayLines g = Inr (g\<lparr>DisplayLines := ls\<rparr>)" "int (length ls) = LinesPerView g"
    "ls \<noteq> [] \<longrightarrow> hd ls \<noteq> [] \<longrightarrow> WordsTyped g < int (length (AllWords g))
       \<and> int (length (AllWords g ! nat (WordsTyped g))) \<le> CharsPerLine g" by blast
  with assms(3) i have 1: "\<exists>g'. generateDisplayLines g = Inr g' \<and> hd (DisplayLines g') = []"
    by (intro exI[of _ "g\<lparr>DisplayLines := ls\<rparr>"]) (auto simp: session_inv_def)
  from shiftLines_spec[OF l d, of GenerateWords] blocked_first_line[OF b]
  have 2: "\<exists>g'. shiftLines g GenerateWords = Inr g' \<and> WordsTyped g' = WordsTyped g + 0"
    by (auto simp: Fields_Nil)
  from run_blocked[OF b, of es]
  have 3: "\<exists>g'. run g es = Inr g' \<and> WordsTyped g' = WordsTyped g
          \<and> CharsPerLine g' < int (length (AllWords g' ! nat (WordsTyped g')))"
    by (auto simp: blocked_def)
  from 1 2 3 blocked_first_line[OF b] show ?thesis by blast
qed

theorem overlong_word_blocks_witness:
  "reachable stuckGame \<and> WordsTyped stuckGame < int (length (AllWords stuckGame))
   \<and> CharsPerLine stuckGame
        < int (length (AllWords stuckGame ! nat (WordsTyped stuckGame)))
   \<and> (\<exists>g'. generateDisplayLines stuckGame = Inr g' \<and> hd (DisplayLines g') = [])
   \<and> hd (DisplayLines stuckGame) = []
   \<and> (\<exists>g'. shiftLines stuckGame longWords = Inr g'
         \<and> WordsTyped g' = WordsTyped stuckGame + 0)
   \<and> (\<exists>g'. run stuckGame
              [KeyChar CHR '' '' 0 1000 longWords, KeyEnter 2000 longWords,
               KeyChar CHR ''a'' 0 3000 longWords, KeyBackspace,
               KeyEnter 4000 longWords] = Inr g'
         \<and> WordsTyped g' = WordsTyped stuckGame
         \<and> CharsPerLine g' < int (length (AllWords g' ! nat (WordsTyped g'))))"
proof -
  have h: "WordsTyped stuckGame < int (length (AllWords stuckGame))"
    "CharsPerLine stuckGame < int (length (AllWords stuckGame ! nat (WordsTyped stuckGame)))"
    by (simp_all add: stuckGame_def)
  from overlong_word_blocks[OF reachable_stuckGame h, of longWords]
    reachable_stuckGame h
  show ?thesis by blast
qed

section \<open>Buffer growth\<close>

text \<open>
  Claim C9, as the code has it. A space or an Enter accepted at the end of the first line
  of a reachable session advances the line: \<open>WordsTyped\<close> grows by the number of words of
  the retired line, and then the growth test runs on the new value. When it is greater than
  the length of the buffer less 50, that is when fewer than 50 words are left, the result of
  \<^verbatim>\<open>GenerateWords(100)\<close> is appended to the end of the buffer: 100 more words when that call
  returns 100. Otherwise the buffer is unchanged. The old buffer is always a prefix of the
  new one.
\<close>

theorem growth_policy:
  assumes "reachable g" and "\<not> IsFinished g" and "\<not> IsTimeUp (Start g now) now'"
    and "CurrentPos g = int (length (hd (DisplayLines g)))"
    and "length (GenerateWords 100) = 100"
  shows "\<exists>g1 g2. AddCharacter g CHR '' '' now now' GenerateWords = Inr g1
          \<and> HandleEnterKey g now' GenerateWords = Inr (True, g2)
          \<and> WordsTyped g1 = WordsTyped g + int (length (Fields (hd (DisplayLines g))))
          \<and> WordsTyped g2 = WordsTyped g1
          \<and> AllWords g1 =
               (if WordsTyped g1 > int (length (AllWords g)) - 50
                then AllWords g @ GenerateWords 100 else AllWords g)
          \<and> AllWords g2 = AllWords g1
          \<and> length (AllWords g1) =
               (if WordsTyped g1 > int (length (AllWords g)) - 50
                then length (AllWords g) + 100 else length (AllWords g))
          \<and> take (length (AllWords g)) (AllWords g1) = AllWords g"
proof -
  from reachable_inv[OF assms(1)] have i: "session_inv g" .
  then obtain l0 rest where dl: "DisplayLines g = l0 # rest"
    by (cases "DisplayLines g") (auto simp: session_inv_def)
  from assms(4) dl have cp: "CurrentPos g = int (length l0)" by simp
  let ?w = "WordsTyped g + int (length (Fields (hd (DisplayLines g))))"
  let ?ws = "if ?w > int (length (AllWords g)) - 50
             then AllWords g @ GenerateWords 100 else AllWords g"
  have sdl: "DisplayLines (Start g now) = DisplayLines g"
    "CurrentPos (Start g now) = CurrentPos g" "GlobalPos (Start g now) = GlobalPos g"
    "UserInput (Start g now) = UserInput g" "WordsTyped (Start g now) = WordsTyped g"
    "AllWords (Start g now) = AllWords g"
    by (simp_all add: Start_def)
  from shiftLines_inv[OF Start_inv[OF i], of now "UserInput g @ '' ''" GenerateWords]
  obtain g1 where
    s1: "shiftLines (Start g now\<lparr>UserInput := UserInput g @ '' '',
           CurrentPos := CurrentPos g + 1, GlobalPos := GlobalPos g + 1\<rparr>) GenerateWords
         = Inr g1" and
    p1: "WordsTyped g1 = ?w" "AllWords g1 = ?ws"
    unfolding sdl by blast
  from shiftLines_inv[OF i, of "UserInput g @ '' ''" GenerateWords]
  obtain g2 where
    s2: "shiftLines (g\<lparr>UserInput := UserInput g @ '' '',
           CurrentPos := CurrentPos g + 1, GlobalPos := GlobalPos g + 1\<rparr>) GenerateWords
         = Inr g2" and
    p2: "WordsTyped g2 = ?w" "AllWords g2 = ?ws"
    by blast
  have a: "AddCharacter g CHR '' '' now now' GenerateWords = Inr g1"
    unfolding AddCharacter_space_end[OF assms(2,3) dl cp] by (rule s1)
  have h: "HandleEnterKey g now' GenerateWords = Inr (True, g2)"
    unfolding HandleEnterKey_end[OF assms(2) Start_not_up[OF assms(3)] dl cp] s2 by simp
  from a h p1 p2 assms(5) show ?thesis
    by (intro exI[of _ g1] exI[of _ g2]) auto
qed

theorem growth_policy_witness:
  "reachable alphaLineEnd \<and> \<not> IsFinished alphaLineEnd
   \<and> \<not> IsTimeUp (Start alphaLineEnd 0) 2000
   \<and> CurrentPos alphaLineEnd = int (length (hd (DisplayLines alphaLineEnd)))
   \<and> length (alphaWords 100) = 100
   \<and> (\<exists>g1 g2. AddCharacter alphaLineEnd CHR '' '' 0 2000 alphaWords = Inr g1
          \<and> HandleEnterKey alphaLineEnd 2000 alphaWords = Inr (True, g2)
          \<and> WordsTyped g1 = 1 \<and> WordsTyped g2 = 1
          \<and> AllWords g1 = AllWords alphaLineEnd \<and> AllWords g2 = AllWords alphaLineEnd
          \<and> length (AllWords g1) = 200)"
proof -
  have h: "\<not> IsFinished alphaLineEnd" "\<not> IsTimeUp (Start alphaLineEnd 0) 2000"
    "CurrentPos alphaLineEnd = int (length (hd (DisplayLines alphaLineEnd)))"
    "length (alphaWords 100) = 100"
    by (simp_all add: alphaLineEnd_def alphaFresh_def alphabet_def alphaWords_def
        IsTimeUp_def Start_def Seconds_def)
  have f: "WordsTyped alphaLineEnd
      + int (length (Fields (hd (DisplayLines alphaLineEnd)))) = 1"
    "length (AllWords alphaLineEnd) = 200"
    by (simp_all add: alphaLineEnd_def alphaFresh_def alphabet_def Fields_def asciiSpace_def)
  from growth_policy[of alphaLineEnd 0 2000 alphaWords, OF reachable_alphaLineEnd h] obtain g1 g2 where
    "AddCharacter alphaLineEnd CHR '' '' 0 2000 alphaWords = Inr g1"
    "HandleEnterKey alphaLineEnd 2000 alphaWords = Inr (True, g2)"
    "WordsTyped g1 = WordsTyped alphaLineEnd
        + int (length (Fields (hd (DisplayLines alphaLineEnd))))"
    "WordsTyped g2 = WordsTyped g1"
    "AllWords g1 = (if WordsTyped g1 > int (length (AllWords alphaLineEnd)) - 50
                then AllWords alphaLineEnd @ alphaWords 100 else AllWords alphaLineEnd)"
    "AllWords g2 = AllWords g1" by blast
  with f reachable_alphaLineEnd h show ?thesis
    by (intro conjI exI[of _ g1] exI[of _ g2]) simp_all
qed

text \<open>
  Claim C9 as stated fails when exactly 50 words are left. The session \<open>lineEnd140\<close> is
  reachable; after the space that retires its fifteenth line, 150 words are consumed of a
  buffer of 200: the count is within 50 of the length, and nothing is appended.
\<close>

theorem growth_policy_counterexample:
  "reachable lineEnd140
   \<and> AddCharacter lineEnd140 CHR '' '' 0 299000000000 typeWords = Inr lineStart150
   \<and> length (typeWords 100) = 100
   \<and> int (length (AllWords lineEnd140)) - WordsTyped lineStart150 = 50
   \<and> AllWords lineStart150 = AllWords lineEnd140"
  using shift_lineEnd140 reachable_lineEnd140
  by (simp add: lineStart150_def lineEnd140_def freshGame_def typeWords_def)

section \<open>Statistics\<close>

text \<open>
  Claim C2. For a started, reachable session, the time \<^verbatim>\<open>GetStats\<close> reports and computes
  with is the configured duration (\<open>Duration\<close> seconds) when \<^verbatim>\<open>IsTimeUp\<close> holds and the
  elapsed time since \<open>StartTime\<close> otherwise; \<open>WPM\<close> is \<open>GlobalPos / 5 / minutes\<close> of that time
  when the minutes are positive and 0 otherwise, so it is 0 when the time is zero, and it is
  never negative.
\<close>

theorem GetStats_wpm:
  assumes "reachable g" and "IsStarted g"
  shows "TimeElapsed (fst (GetStats g now now')) =
           (if IsTimeUp g now' then Duration g * Second else now - StartTime g)
    \<and> WPM (fst (GetStats g now now')) =
           (if 0 < Minutes (TimeElapsed (fst (GetStats g now now')))
            then of_int (GlobalPos g) / 5 / Minutes (TimeElapsed (fst (GetStats g now now')))
            else 0)
    \<and> (TimeElapsed (fst (GetStats g now now')) = 0 \<longrightarrow>
          WPM (fst (GetStats g now now')) = 0)
    \<and> 0 \<le> WPM (fst (GetStats g now now'))"
proof -
  from reachable_inv[OF assms(1)] have p: "0 \<le> GlobalPos g" by (simp add: session_inv_def)
  define t where "t = (if IsTimeUp g now' then Duration g * Second else now - StartTime g)"
  have te: "TimeElapsed (fst (GetStats g now now')) = t"
    using assms(2) by (simp add: GetStats_def Let_def t_def)
  have nn: "0 \<le> (of_int (GlobalPos g) :: rat) / 5 / Minutes t" if "0 < Minutes t"
    using p that by simp
  have w: "WPM (fst (GetStats g now now')) =
      (if 0 < Minutes t then of_int (GlobalPos g) / 5 / Minutes t else 0)"
    using assms(2) nn by (auto simp: GetStats_def Let_def t_def[symmetric])
  have z: "t = 0 \<Longrightarrow> Minutes t = 0" by (simp add: Minutes_def)
  show ?thesis unfolding te w using nn z by (auto simp: t_def)
qed

theorem GetStats_wpm_witness:
  "reachable typedT \<and> IsStarted typedT
   \<and> IsTimeUp typedT 10500000000
   \<and> TimeElapsed (fst (GetStats typedT 10400000000 10500000000)) = 10000000000
   \<and> WPM (fst (GetStats typedT 10400000000 10500000000)) = 6 / 5
   \<and> \<not> IsTimeUp typedT 6000000001
   \<and> TimeElapsed (fst (GetStats typedT 6000000000 6000000001)) = 6000000000
   \<and> WPM (fst (GetStats typedT 6000000000 6000000001)) = 2
   \<and> WPM (fst (GetStats typedT 0 1)) = 0"
proof -
  have h: "IsStarted typedT" by (simp add: typedT_def)
  have t: "IsTimeUp typedT 10500000000" "\<not> IsTimeUp typedT 6000000001" "\<not> IsTimeUp typedT 1"
    by (simp_all add: IsTimeUp_def Seconds_def typedT_def freshGame_def)
  have v: "Duration typedT = 10" "StartTime typedT = 0" "GlobalPos typedT = 1"
    by (simp_all add: typedT_def freshGame_def)
  from GetStats_wpm[OF reachable_typedT h, of 10400000000 10500000000]
    GetStats_wpm[OF reachable_typedT h, of 6000000000 6000000001]
    GetStats_wpm[OF reachable_typedT h, of 0 1]
    reachable_typedT h t
  show ?thesis by (simp add: v Second_def Minutes_def)
qed

text \<open>
  Claim C6 as stated fails for a running session: two calls of \<^verbatim>\<open>GetStats\<close> with nothing
  between them but one second of the clock report different elapsed times, so the two
  records differ.
\<close>

theorem GetStats_twice_counterexample:
  "reachable typedT
   \<and> snd (GetStats typedT 6000000000 6000000000) = typedT
   \<and> fst (GetStats typedT 6000000000 6000000000)
       \<noteq> fst (GetStats (snd (GetStats typedT 6000000000 6000000000)) 7000000000 7000000000)
   \<and> TimeElapsed (fst (GetStats typedT 6000000000 6000000000)) = 6000000000
   \<and> TimeElapsed (fst (GetStats typedT 7000000000 7000000000)) = 7000000000"
proof -
  have t: "\<not> IsTimeUp typedT 6000000000" "\<not> IsTimeUp typedT 7000000000"
    by (simp_all add: IsTimeUp_def Seconds_def typedT_def freshGame_def)
  have s: "IsStarted typedT" "StartTime typedT = 0" by (simp_all add: typedT_def freshGame_def)
  have a: "TimeElapsed (fst (GetStats typedT 6000000000 6000000000)) = 6000000000"
    using t s by (simp add: GetStats_def Let_def)
  have b: "TimeElapsed (fst (GetStats typedT 7000000000 7000000000)) = 7000000000"
    using t s by (simp add: GetStats_def Let_def)
  have c: "snd (GetStats typedT 6000000000 6000000000) = typedT"
    by (simp add: GetStats_def Let_def)
  from a b have "fst (GetStats typedT 6000000000 6000000000)
       \<noteq> fst (GetStats typedT 7000000000 7000000000)" by auto
  with a b c reachable_typedT show ?thesis by simp
qed

text \<open>
  Claim C6, as the code has it. \<^verbatim>\<open>GetStats\<close> changes no field of the session. Two calls
  with no operation between them return the same record when they read the same clock
  values, when the session has not started, or when time is up at both calls.
\<close>

theorem GetStats_pure:
  "snd (GetStats g now now') = g
   \<and> fst (GetStats (snd (GetStats g now now')) now now') = fst (GetStats g now now')
   \<and> (\<not> IsStarted g \<longrightarrow>
         fst (GetStats (snd (GetStats g a a')) b b') = fst (GetStats g a a'))
   \<and> (IsTimeUp g a' \<and> IsTimeUp g b' \<longrightarrow>
         fst (GetStats (snd (GetStats g a a')) b b') = fst (GetStats g a a'))"
proof -
  have s: "snd (GetStats g x y) = g" for x y by (simp add: GetStats_def Let_def)
  show ?thesis unfolding s by (auto simp: GetStats_def Let_def IsTimeUp_def)
qed

theorem GetStats_pure_witness:
  "snd (GetStats typedT 10600000000 10700000000) = typedT
   \<and> \<not> IsStarted freshGame
   \<and> fst (GetStats (snd (GetStats freshGame 5 6)) 7000000000 8000000000)
        = fst (GetStats freshGame 5 6)
   \<and> IsTimeUp typedT 10700000000 \<and> IsTimeUp typedT 12000000000
   \<and> fst (GetStats (snd (GetStats typedT 10600000000 10700000000)) 11000000000 12000000000)
        = fst (GetStats typedT 10600000000 10700000000)"
proof -
  have h: "\<not> IsStarted freshGame" "IsTimeUp typedT 10700000000" "IsTimeUp typedT 12000000000"
    by (simp_all add: IsTimeUp_def Seconds_def typedT_def freshGame_def)
  from GetStats_pure[of typedT 10600000000 10700000000 10600000000 10700000000
      11000000000 12000000000]
    GetStats_pure[of freshGame 5 6 5 6 7000000000 8000000000] h
  show ?thesis by blast
qed

section \<open>The life cycle\<close>

text \<open>
  Claim C3 as stated fails on a fresh session whose first line is empty: the key \<open>a\<close> is
  rejected there (the cursor is at the end of the line and the key is not a space; no
  position moves, nothing is typed), yet the call has started the session and set the
  start time.
\<close>

theorem rejected_key_starts_counterexample:
  "NewTypingGame longWords 60 = Inr stuckGame
   \<and> \<not> IsStarted stuckGame
   \<and> CurrentPos stuckGame = int (length (hd (DisplayLines stuckGame)))
   \<and> AddCharacter stuckGame CHR ''a'' 5000 6000 longWords
        = Inr (stuckGame\<lparr>StartTime := 5000, IsStarted := True\<rparr>)
   \<and> GlobalPos stuckGame = 0 \<and> UserInput stuckGame = []"
  using new_stuckGame
  by (simp add: eval_defs stuckGame_def longWords_def)

text \<open>
  Claim C3, as the code has it. A fresh reachable session is started by the first call of
  \<^verbatim>\<open>AddCharacter\<close>, whether the character is then accepted or not, and the start time is
  the clock read by that call; \<^verbatim>\<open>HandleEnterKey\<close>, \<^verbatim>\<open>RemoveCharacter\<close> and \<^verbatim>\<open>GetStats\<close>
  leave it not started. Once a session is started, every keystroke operation leaves it
  started with the same start time.
\<close>

theorem session_start:
  assumes "reachable g"
  shows "(\<not> IsStarted g \<longrightarrow>
            (\<exists>g'. AddCharacter g c now now' GenerateWords = Inr g'
                \<and> IsStarted g' \<and> StartTime g' = now)
          \<and> (\<exists>ok g'. HandleEnterKey g now' GenerateWords = Inr (ok, g') \<and> \<not> IsStarted g')
          \<and> \<not> IsStarted (RemoveCharacter g)
          \<and> \<not> IsStarted (snd (GetStats g now now')))
    \<and> (IsStarted g \<longrightarrow>
          (\<exists>g'. step g e = Inr g' \<and> IsStarted g' \<and> StartTime g' = StartTime g))"
proof (intro conjI impI)
  from reachable_inv[OF assms] have i: "session_inv g" .
  {
    assume n: "\<not> IsStarted g"
    from AddCharacter_inv[OF i, of c now now' GenerateWords] n
    show "\<exists>g'. AddCharacter g c now now' GenerateWords = Inr g'
                \<and> IsStarted g' \<and> StartTime g' = now" by auto
    from HandleEnterKey_inv[OF i, of now' GenerateWords] n
    show "\<exists>ok g'. HandleEnterKey g now' GenerateWords = Inr (ok, g') \<and> \<not> IsStarted g'"
      by auto
    from n show "\<not> IsStarted (RemoveCharacter g)" by (simp add: RemoveCharacter_def Let_def)
    from n show "\<not> IsStarted (snd (GetStats g now now'))" by (simp add: GetStats_def)
  }
  {
    assume s: "IsStarted g"
    show "\<exists>g'. step g e = Inr g' \<and> IsStarted g' \<and> StartTime g' = StartTime g"
    proof (cases e)
      case (KeyChar c' t t' gw)
      with AddCharacter_inv[OF i, of c' t t' gw] s show ?thesis by auto
    next
      case (KeyEnter t gw)
      with HandleEnterKey_inv[OF i, of t gw] s show ?thesis by auto
    next
      case KeyBackspace
      with s show ?thesis by (simp add: RemoveCharacter_def Let_def)
    qed
  }
qed

theorem session_start_witness:
  "reachable freshGame \<and> \<not> IsStarted freshGame
   \<and> (\<exists>g'. AddCharacter freshGame CHR ''t'' 7000 8000 typeWords = Inr g'
         \<and> IsStarted g' \<and> StartTime g' = 7000)
   \<and> (\<exists>ok g'. HandleEnterKey freshGame 8000 typeWords = Inr (ok, g') \<and> \<not> IsStarted g')
   \<and> \<not> IsStarted (RemoveCharacter freshGame)
   \<and> \<not> IsStarted (snd (GetStats freshGame 7000 8000))
   \<and> reachable typedT \<and> IsStarted typedT
   \<and> (\<exists>g'. step typedT (KeyChar CHR ''y'' 7000 8000 typeWords) = Inr g'
         \<and> IsStarted g' \<and> StartTime g' = StartTime typedT)"
proof -
  have h: "\<not> IsStarted freshGame" "IsStarted typedT"
    by (simp_all add: typedT_def freshGame_def)
  from session_start[OF reachable_freshGame, of "CHR ''t''" 7000 8000 typeWords]
    session_start[OF reachable_typedT, of _ _ _ _ "KeyChar CHR ''y'' 7000 8000 typeWords"]
    h reachable_freshGame reachable_typedT
  show ?thesis by blast
qed

text \<open>
  Claim C1 does not hold of the code. In the session \<open>typedT\<close> (started at clock 0, ten
  seconds long, one character typed) read eleven seconds after the start, time is up.
  \<^verbatim>\<open>AddCharacter\<close> does what the claim says: it is rejected and marks the session finished.
  \<^verbatim>\<open>HandleEnterKey\<close> is rejected but leaves the session not finished, and
  \<^verbatim>\<open>RemoveCharacter\<close>, which never reads the clock, takes the typed character back:
  \<open>GlobalPos\<close> falls from 1 to 0 and the session is still not finished.
\<close>

theorem backspace_after_time_up:
  "reachable typedT \<and> IsStarted typedT \<and> IsTimeUp typedT 11000000000
   \<and> AddCharacter typedT CHR ''y'' 0 11000000000 typeWords
        = Inr (typedT\<lparr>IsFinished := True\<rparr>)
   \<and> HandleEnterKey typedT 11000000000 typeWords = Inr (False, typedT)
   \<and> \<not> IsFinished typedT
   \<and> RemoveCharacter typedT = typedT\<lparr>UserInput := [], CurrentPos := 0, GlobalPos := 0\<rparr>
   \<and> GlobalPos typedT = 1
   \<and> \<not> IsFinished (RemoveCharacter typedT)"
  using reachable_typedT
  by (simp add: eval_defs typedT_def freshGame_def)

end
